theory Spec2Isabelle
  imports Main "HOL-Library.AList" "HOL-Library.Sublist"
begin

section \<open>JavaScript values\<close>

text \<open>
  The chat component and the agent endpoint receive their data from JSON: the messages of
  the stream and the body of the request. A value is therefore a datum, a tree:
  \<^item> a number is represented by the text that \<open>String\<close> gives it (\<open>''42''\<close>,
    \<open>''0.5''\<close>, \<open>''NaN''\<close>): the source never computes with a number it receives, it
    only tests it for truth, compares it and converts it to text;
  \<^item> a string is a list of 8-bit characters (code units below 256);
  \<^item> an object is the list of its own properties, the first binding of a name being
    the property; its prototype is \<open>Object.prototype\<close>, and no property is a function
    or an accessor;
  \<^item> every array and object of the tree is an object of its own: two occurrences are
    never the same reference.
\<close>

datatype jsval =
    JUndefined
  | JNull
  | JBool bool
  | JNum string
  | JStr string
  | JArr "jsval list"
  | JObj "(string \<times> jsval) list"

text \<open>
  What a \<open>throw\<close> carries: an instance of \<open>Error\<close> with its message (the two kinds the
  engine itself raises are told apart), or any other value. The messages of the errors
  the engine raises are those of V8.
\<close>

datatype thrown =
    TypeError string
  | SyntaxError string
  | Error string
  | Value jsval

definition cannot_convert :: thrown where
  "cannot_convert = TypeError ''Cannot convert object to primitive value''"

definition cannot_read :: "jsval \<Rightarrow> string \<Rightarrow> thrown" where
  "cannot_read v k =
     TypeError (''Cannot read properties of '' @ (if v = JNull then ''null'' else ''undefined'')
                @ '' (reading '' @ [CHR 0x27] @ k @ [CHR 0x27] @ '')'')"

text \<open>\<open>!v\<close> is \<open>\<not> truthy v\<close>.\<close>

fun truthy :: "jsval \<Rightarrow> bool" where
  "truthy JUndefined = False"
| "truthy JNull = False"
| "truthy (JBool b) = b"
| "truthy (JNum n) = (n \<noteq> ''0'' \<and> n \<noteq> ''NaN'')"
| "truthy (JStr s) = (s \<noteq> [])"
| "truthy (JArr xs) = True"
| "truthy (JObj ps) = True"

fun typeof :: "jsval \<Rightarrow> string" where
  "typeof JUndefined = ''undefined''"
| "typeof JNull = ''object''"
| "typeof (JBool b) = ''boolean''"
| "typeof (JNum n) = ''number''"
| "typeof (JStr s) = ''string''"
| "typeof (JArr xs) = ''object''"
| "typeof (JObj ps) = ''object''"

text \<open>
  \<open>a === b\<close>. Two arrays or objects are equal when they are the same reference, which two
  occurrences in a tree never are.
\<close>

fun strict_eq :: "jsval \<Rightarrow> jsval \<Rightarrow> bool" where
  "strict_eq JUndefined JUndefined = True"
| "strict_eq JNull JNull = True"
| "strict_eq (JBool a) (JBool b) = (a = b)"
| "strict_eq (JNum a) (JNum b) = (a = b \<and> a \<noteq> ''NaN'')"
| "strict_eq (JStr a) (JStr b) = (a = b)"
| "strict_eq a b = False"

text \<open>
  \<open>v.k\<close> for a value \<open>v\<close> that is neither \<open>null\<close> nor \<open>undefined\<close>, and a name \<open>k\<close>
  that no built-in prototype defines (the source reads \<open>type\<close>, \<open>id\<close>, \<open>content\<close>,
  \<open>text\<close>, \<open>tool_calls\<close>, \<open>tool_call_id\<close> and \<open>apiKey\<close>): the own property of an
  object, \<open>undefined\<close> for anything else. \<open>k in v\<close> for an object \<open>v\<close> is \<open>has v k\<close>.
\<close>

fun own :: "jsval \<Rightarrow> string \<Rightarrow> jsval" where
  "own (JObj ps) k = (case map_of ps k of None \<Rightarrow> JUndefined | Some v \<Rightarrow> v)"
| "own v k = JUndefined"

fun has :: "jsval \<Rightarrow> string \<Rightarrow> bool" where
  "has (JObj ps) k = (map_of ps k \<noteq> None)"
| "has v k = False"

text \<open>\<open>v.k\<close> for any value: reading a property of \<open>null\<close> or \<open>undefined\<close> throws.\<close>

definition get :: "jsval \<Rightarrow> string \<Rightarrow> thrown + jsval" where
  "get v k = (if v = JNull \<or> v = JUndefined then Inl (cannot_read v k) else Inr (own v k))"

text \<open>
  \<open>String(v)\<close>. An array is joined with commas, \<open>null\<close> and \<open>undefined\<close> elements giving
  the empty text. An object is converted by the first of its \<open>toString\<close> and \<open>valueOf\<close>
  that is a function and returns a primitive: an object without an own \<open>toString\<close>
  inherits the one of \<open>Object.prototype\<close>; an own \<open>toString\<close> is a datum, not a
  function, and the \<open>valueOf\<close> that is then tried (own, a datum; or inherited, returning
  the object itself) gives no primitive either, so the conversion throws a TypeError.
\<close>

fun intersperse :: "string \<Rightarrow> string list \<Rightarrow> string" where
  "intersperse sep [] = []"
| "intersperse sep [s] = s"
| "intersperse sep (s # t # ss) = s @ sep @ intersperse sep (t # ss)"

fun sequence :: "('e + 'a) list \<Rightarrow> 'e + 'a list" where
  "sequence [] = Inr []"
| "sequence (x # xs) =
     (case x of
        Inl e \<Rightarrow> Inl e
      | Inr v \<Rightarrow> (case sequence xs of Inl e \<Rightarrow> Inl e | Inr vs \<Rightarrow> Inr (v # vs)))"

fun String :: "jsval \<Rightarrow> thrown + string" where
  "String JUndefined = Inr ''undefined''"
| "String JNull = Inr ''null''"
| "String (JBool b) = Inr (if b then ''true'' else ''false'')"
| "String (JNum n) = Inr n"
| "String (JStr s) = Inr s"
| "String (JArr xs) =
     (case sequence (map (\<lambda>x. if x = JNull \<or> x = JUndefined then Inr [] else String x) xs) of
        Inl e \<Rightarrow> Inl e
      | Inr ss \<Rightarrow> Inr (intersperse '','' ss))"
| "String (JObj ps) =
     (if map_of ps ''toString'' \<noteq> None then Inl cannot_convert else Inr ''[object Object]'')"

section \<open>The message classifier\<close>

text \<open>
  \<open>AIMessage.isInstance\<close> belongs to the host library: it is a parameter \<open>inst\<close> of the
  model, a predicate on values.
\<close>

definition isAIMessage :: "(jsval \<Rightarrow> bool) \<Rightarrow> jsval \<Rightarrow> bool" where
  "isAIMessage inst message =
     (if \<not> truthy message \<or> typeof message \<noteq> ''object'' then False
      else if strict_eq (own message ''type'') (JStr ''ai'') then True
      else inst message)"

definition isToolMessage :: "jsval \<Rightarrow> bool" where
  "isToolMessage message =
     (if \<not> truthy message \<or> typeof message \<noteq> ''object'' then False
      else strict_eq (own message ''type'') (JStr ''tool''))"

definition isHumanMessage :: "jsval \<Rightarrow> bool" where
  "isHumanMessage message =
     (if \<not> truthy message \<or> typeof message \<noteq> ''object'' then False
      else strict_eq (own message ''type'') (JStr ''human''))"

text \<open>The callback of \<open>content.map\<close> in \<open>extractTextContent\<close>.\<close>

definition fragment_text :: "jsval \<Rightarrow> thrown + string" where
  "fragment_text item =
     (case item of
        JStr s \<Rightarrow> Inr s
      | _ \<Rightarrow>
          if truthy item \<and> typeof item = ''object'' \<and> has item ''text''
            then String (own item ''text'')
          else Inr [])"

definition extractTextContent :: "jsval \<Rightarrow> thrown + string" where
  "extractTextContent content =
     (case content of
        JStr s \<Rightarrow> Inr s
      | JArr items \<Rightarrow>
          (case sequence (map fragment_text items) of
             Inl e \<Rightarrow> Inl e
           | Inr ss \<Rightarrow> Inr (concat ss))
      | _ \<Rightarrow>
          if truthy content \<and> typeof content = ''object'' \<and> has content ''text''
            then String (own content ''text'')
          else String (if truthy content then content else JStr []))"

section \<open>The stream reconciler\<close>

text \<open>
  A message object is identified with its position in \<open>stream.messages\<close>: the sequence
  holds every message object once, so the \<open>Map\<close> keyed by message reference is keyed by
  position, kept as a list of bindings in insertion order.
\<close>

record ToolCallState =
  toolCall :: jsval
  toolMessage :: "jsval option"
  aiMessageId :: jsval
  timestamp :: nat

type_synonym tool_call_map = "(nat \<times> ToolCallState list) list"

text \<open>The decimal digits of an index, as a template literal prints it.\<close>

fun show_nat :: "nat \<Rightarrow> string" where
  "show_nat n =
     (if n < 10 then [''0123456789'' ! n]
      else show_nat (n div 10) @ [''0123456789'' ! (n mod 10)])"

declare show_nat.simps [simp del]

text \<open>\<open>toolCalls.some((tc) => tc.id === toolCallId)\<close>\<close>

fun some_id :: "jsval list \<Rightarrow> jsval \<Rightarrow> thrown + bool" where
  "some_id [] toolCallId = Inr False"
| "some_id (tc # tcs) toolCallId =
     (case get tc ''id'' of
        Inl e \<Rightarrow> Inl e
      | Inr i \<Rightarrow> if strict_eq i toolCallId then Inr True else some_id tcs toolCallId)"

text \<open>The loop over \<open>stream.messages\<close> that collects \<open>toolMessages\<close>.\<close>

fun collect_toolMessages :: "jsval list \<Rightarrow> jsval list \<Rightarrow> thrown + jsval list" where
  "collect_toolMessages toolCalls [] = Inr []"
| "collect_toolMessages toolCalls (msg # msgs) =
     (if isToolMessage msg then
        (let toolCallId = own msg ''tool_call_id'' in
         if truthy toolCallId then
           (case some_id toolCalls toolCallId of
              Inl e \<Rightarrow> Inl e
            | Inr b \<Rightarrow>
                (case collect_toolMessages toolCalls msgs of
                   Inl e \<Rightarrow> Inl e
                 | Inr tms \<Rightarrow> Inr (if b then msg # tms else tms)))
         else collect_toolMessages toolCalls msgs)
      else collect_toolMessages toolCalls msgs)"

text \<open>\<open>toolMessages.find((tm) => tm.tool_call_id === toolCall.id)\<close>\<close>

fun find_toolMessage :: "jsval \<Rightarrow> jsval list \<Rightarrow> thrown + jsval option" where
  "find_toolMessage tc [] = Inr None"
| "find_toolMessage tc (tm # tms) =
     (case get tc ''id'' of
        Inl e \<Rightarrow> Inl e
      | Inr i \<Rightarrow>
          if strict_eq (own tm ''tool_call_id'') i then Inr (Some tm)
          else find_toolMessage tc tms)"

text \<open>The loop over \<open>toolCalls\<close> that builds \<open>toolCallStates\<close>.\<close>

fun toolCallStates :: "jsval \<Rightarrow> nat \<Rightarrow> jsval list \<Rightarrow> jsval list \<Rightarrow> thrown + ToolCallState list" where
  "toolCallStates messageId messageIndex toolMessages [] = Inr []"
| "toolCallStates messageId messageIndex toolMessages (tc # tcs) =
     (case find_toolMessage tc toolMessages of
        Inl e \<Rightarrow> Inl e
      | Inr tm \<Rightarrow>
          (case toolCallStates messageId messageIndex toolMessages tcs of
             Inl e \<Rightarrow> Inl e
           | Inr sts \<Rightarrow>
               Inr (\<lparr>toolCall = tc, toolMessage = tm, aiMessageId = messageId,
                     timestamp = messageIndex * 1000\<rparr> # sts)))"

definition messageId_of :: "jsval \<Rightarrow> nat \<Rightarrow> jsval" where
  "messageId_of message messageIndex =
     (if truthy (own message ''id'') then own message ''id''
      else JStr (''msg-'' @ show_nat messageIndex))"

definition toolCalls_of :: "jsval \<Rightarrow> jsval list" where
  "toolCalls_of message =
     (case own message ''tool_calls'' of JArr tcs \<Rightarrow> tcs | _ \<Rightarrow> [])"

text \<open>The callback of \<open>stream.messages.forEach\<close>, on the map built so far.\<close>

definition reconcile_message ::
  "(jsval \<Rightarrow> bool) \<Rightarrow> jsval list \<Rightarrow> tool_call_map \<Rightarrow> nat \<times> jsval \<Rightarrow> thrown + tool_call_map" where
  "reconcile_message inst messages m im =
     (case im of (messageIndex, message) \<Rightarrow>
        if \<not> isAIMessage inst message then Inr m
        else
          (let messageId = messageId_of message messageIndex;
               toolCalls = toolCalls_of message
           in case collect_toolMessages toolCalls messages of
                Inl e \<Rightarrow> Inl e
              | Inr toolMessages \<Rightarrow>
                  if length toolCalls > 0 then
                    (case toolCallStates messageId messageIndex toolMessages toolCalls of
                       Inl e \<Rightarrow> Inl e
                     | Inr sts \<Rightarrow> Inr (AList.update messageIndex sts m))
                  else Inr m))"

fun forEach :: "('s \<Rightarrow> 'a \<Rightarrow> thrown + 's) \<Rightarrow> 'a list \<Rightarrow> 's \<Rightarrow> thrown + 's" where
  "forEach f [] s = Inr s"
| "forEach f (x # xs) s = (case f s x of Inl e \<Rightarrow> Inl e | Inr s' \<Rightarrow> forEach f xs s')"

text \<open>
  \<open>toolCallsByMessage\<close>: the map after the loop, every list sorted by timestamp
  (\<open>Array.prototype.sort\<close> is stable).
\<close>

definition toolCallsByMessage :: "(jsval \<Rightarrow> bool) \<Rightarrow> jsval list \<Rightarrow> thrown + tool_call_map" where
  "toolCallsByMessage inst messages =
     (case forEach (reconcile_message inst messages) (enumerate 0 messages) [] of
        Inl e \<Rightarrow> Inl e
      | Inr m \<Rightarrow> Inr (map (\<lambda>(k, calls). (k, sort_key timestamp calls)) m))"

section \<open>Sending\<close>

text \<open>
  \<open>String.prototype.trim\<close> removes white space and line terminators at both ends; among
  the code units below 256 these are TAB, LF, VT, FF, CR, SP and NBSP.
\<close>

definition white_space :: "char \<Rightarrow> bool" where
  "white_space c = (c \<in> set [CHR 0x09, CHR 0x0A, CHR 0x0B, CHR 0x0C, CHR 0x0D, CHR 0x20, CHR 0xA0])"

definition trim :: "string \<Rightarrow> string" where
  "trim s = rev (dropWhile white_space (rev (dropWhile white_space s)))"

text \<open>
  \<open>handleSend\<close>, given the \<open>apiKey\<close> and \<open>stream.isLoading\<close> of the render it closes
  over: the arguments of its calls of \<open>stream.submit\<close>, in order.
\<close>

definition handleSend :: "string \<Rightarrow> bool \<Rightarrow> string option \<Rightarrow> jsval list" where
  "handleSend apiKey isLoading messageOverride =
     (let messageToSend = (case messageOverride of None \<Rightarrow> [] | Some s \<Rightarrow> if s \<noteq> [] then s else [])
      in if trim messageToSend = [] \<or> isLoading then []
         else if trim apiKey = [] then []
         else [JObj [(''messages'',
                 JArr [JObj [(''content'', JStr messageToSend), (''type'', JStr ''human'')]])]])"

section \<open>Rendering\<close>

text \<open>
  The render sequence: \<open>stream.messages.filter((message) => !isToolMessage(message))\<close>,
  every message with the position that identifies it.
\<close>

definition render_sequence :: "jsval list \<Rightarrow> (nat \<times> jsval) list" where
  "render_sequence messages = filter (\<lambda>(pos, message). \<not> isToolMessage message) (enumerate 0 messages)"

text \<open>
  \<open>errorMessage\<close>, from \<open>stream.error\<close>: an \<open>Error\<close>, or any other value
  (\<open>undefined\<close> when there is no error).
\<close>

fun errorMessage :: "thrown \<Rightarrow> jsval" where
  "errorMessage (TypeError m) = JStr m"
| "errorMessage (SyntaxError m) = JStr m"
| "errorMessage (Error m) = JStr m"
| "errorMessage (Value v) = (if typeof v = ''string'' then v else JUndefined)"

record bubble =
  from_human :: bool
  shown_text :: string
  with_cursor :: bool

record item =
  key :: jsval
  message_bubble :: "bubble option"
  tool_bubbles :: "(jsval \<times> ToolCallState) list"
  error_bubble :: "jsval option"

datatype view = Welcome | Timeline "item list" bool

text \<open>
  The callback of \<open>.map\<close> over the render sequence, for the message at \<open>messageIndex\<close> of
  the \<open>n\<close> messages of the render sequence: the key of the item, the text bubble (when
  the text is not empty), the tool-call bubbles with their keys, and the error bubble.
  Reading a property of a message that is \<open>null\<close> or \<open>undefined\<close> throws; when several
  expressions of the callback would throw, the model reports the first in the order of
  the source text.
\<close>

definition render_message ::
  "(jsval \<Rightarrow> bool) \<Rightarrow> tool_call_map \<Rightarrow> bool \<Rightarrow> jsval \<Rightarrow> nat \<Rightarrow> nat \<Rightarrow> nat \<times> jsval \<Rightarrow> thrown + item" where
  "render_message inst tcm isLoading err n messageIndex pm =
     (case pm of (pos, message) \<Rightarrow>
        (let associatedToolCalls =
               (if isAIMessage inst message
                then (case map_of tcm pos of None \<Rightarrow> [] | Some calls \<Rightarrow> calls)
                else [])
         in case get message ''id'' of
              Inl e \<Rightarrow> Inl e
            | Inr mid \<Rightarrow>
           (case get message ''content'' of
              Inl e \<Rightarrow> Inl e
            | Inr content \<Rightarrow>
           (case extractTextContent content of
              Inl e \<Rightarrow> Inl e
            | Inr txt \<Rightarrow>
           (case sequence (map (\<lambda>st. case get (toolCall st) ''id'' of
                                        Inl e \<Rightarrow> Inl e
                                      | Inr k \<Rightarrow> Inr (k, st)) associatedToolCalls) of
              Inl e \<Rightarrow> Inl e
            | Inr bubbles \<Rightarrow>
                Inr \<lparr>key = (if truthy mid then mid else JNum (show_nat messageIndex)),
                     message_bubble =
                       (if txt \<noteq> []
                        then Some \<lparr>from_human = isHumanMessage message, shown_text = txt,
                                   with_cursor = (int messageIndex = int n - 1 \<and> isLoading)\<rparr>
                        else None),
                     tool_bubbles = bubbles,
                     error_bubble =
                       (if truthy err \<and> isAIMessage inst message \<and> int messageIndex = int n - 1
                        then Some err else None)\<rparr>)))))"

text \<open>
  What \<open>ChatInterface\<close> renders from \<open>stream.messages\<close>, \<open>stream.isLoading\<close> and
  \<open>stream.error\<close>: the welcome screen, or the items of the render sequence and whether
  the loading dots follow them.
\<close>

definition ChatInterface :: "(jsval \<Rightarrow> bool) \<Rightarrow> jsval list \<Rightarrow> bool \<Rightarrow> thrown \<Rightarrow> thrown + view" where
  "ChatInterface inst messages isLoading error =
     (case toolCallsByMessage inst messages of
        Inl e \<Rightarrow> Inl e
      | Inr tcm \<Rightarrow>
          if length messages = 0 then Inr Welcome
          else
            (let rs = render_sequence messages
             in case sequence (map (\<lambda>(messageIndex, pm).
                                      render_message inst tcm isLoading (errorMessage error)
                                        (length rs) messageIndex pm)
                                   (enumerate 0 rs)) of
                  Inl e \<Rightarrow> Inl e
                | Inr items \<Rightarrow> Inr (Timeline items isLoading)))"

section \<open>The agent endpoint\<close>

text \<open>
  A response the handler builds itself: its status, its headers, and the value whose
  JSON text is its body.
\<close>

record response =
  status :: nat
  headers :: "(string \<times> string) list"
  body :: jsval

text \<open>
  The handler returns a response of its own, or what \<open>basicAgent\<close> returned, as it is
  (the handler does not await it).
\<close>

datatype 'r returned = Built response | Agent 'r

definition error_response :: "thrown \<Rightarrow> response" where
  "error_response e =
     \<lparr>status = 500, headers = [(''Content-Type'', ''application/json'')],
      body = JObj [(''error'',
               (case e of
                  TypeError m \<Rightarrow> JStr m
                | SyntaxError m \<Rightarrow> JStr m
                | Error m \<Rightarrow> JStr m
                | Value v \<Rightarrow> JStr ''Internal server error''))]\<rparr>"

definition missing_key_response :: response where
  "missing_key_response =
     \<lparr>status = 400, headers = [(''Content-Type'', ''application/json'')],
      body = JObj [(''error'', JStr ''Missing API key'')]\<rparr>"

text \<open>
  \<open>POST\<close>, given \<open>basicAgent\<close> (which returns, or throws before it returns) and the
  outcome of \<open>request.json()\<close> (the parsed body, or the error of the rejection).
\<close>

definition POST :: "(jsval \<Rightarrow> thrown + 'r) \<Rightarrow> thrown + jsval \<Rightarrow> 'r returned" where
  "POST basicAgent json =
     (case json of
        Inl e \<Rightarrow> Built (error_response e)
      | Inr parsed \<Rightarrow>
          (case get parsed ''apiKey'' of
             Inl e \<Rightarrow> Built (error_response e)
           | Inr apiKey \<Rightarrow>
               if \<not> truthy apiKey then Built missing_key_response
               else (case basicAgent parsed of
                       Inl e \<Rightarrow> Built (error_response e)
                     | Inr r \<Rightarrow> Agent r)))"

section \<open>Notions the properties are stated with\<close>

text \<open>A host library for which no value is an \<open>AIMessage\<close> instance.\<close>

definition no_instances :: "jsval \<Rightarrow> bool" where
  "no_instances v = False"

text \<open>
  What a fragment of a content list contributes, in the words of the specification: the
  fragment itself when it is a string, else its \<open>text\<close> attribute coerced to string,
  else the empty string.
\<close>

definition fragment_reads :: "jsval \<Rightarrow> string \<Rightarrow> bool" where
  "fragment_reads x s =
     (case x of
        JStr t \<Rightarrow> s = t
      | _ \<Rightarrow> if has x ''text'' then String (own x ''text'') = Inr s else s = [])"

text \<open>The outgoing text of a send: \<open>messageOverride || ""\<close>.\<close>

definition outgoing_text :: "string option \<Rightarrow> string" where
  "outgoing_text messageOverride = (case messageOverride of None \<Rightarrow> [] | Some s \<Rightarrow> s)"

text \<open>The argument of \<open>stream.submit\<close> for a text: one message, tagged by \<open>type\<close>.\<close>

definition human_payload :: "string \<Rightarrow> jsval" where
  "human_payload t =
     JObj [(''messages'', JArr [JObj [(''content'', JStr t), (''type'', JStr ''human'')]])]"

text \<open>The argument as the specification writes it: the message is tagged by \<open>role\<close>.\<close>

definition claimed_payload :: "string \<Rightarrow> jsval" where
  "claimed_payload t =
     JObj [(''messages'', JArr [JObj [(''content'', JStr t), (''role'', JStr ''human'')]])]"

text \<open>A JSON reply \<open>{error: m}\<close> with a status.\<close>

definition json_reply :: "nat \<Rightarrow> string \<Rightarrow> response" where
  "json_reply code m =
     \<lparr>status = code, headers = [(''Content-Type'', ''application/json'')],
      body = JObj [(''error'', JStr m)]\<rparr>"

text \<open>The message the handler reports for what was thrown.\<close>

definition message_of :: "thrown \<Rightarrow> string" where
  "message_of e =
     (case e of TypeError m \<Rightarrow> m | SyntaxError m \<Rightarrow> m | Error m \<Rightarrow> m
      | Value v \<Rightarrow> ''Internal server error'')"

text \<open>Request bodies, and an agent that throws before it returns.\<close>

definition falsy_key_body :: jsval where
  "falsy_key_body = JObj [(''apiKey'', JStr []), (''messages'', JArr [])]"

definition key_body :: jsval where
  "key_body = JObj [(''apiKey'', JStr ''sk''), (''messages'', JArr [])]"

fun failing_agent :: "jsval \<Rightarrow> thrown + jsval" where
  "failing_agent b = Inl (Error ''overloaded'')"

text \<open>The messages of the scenarios of the specification.\<close>

definition human_hi :: jsval where
  "human_hi = JObj [(''type'', JStr ''human''), (''content'', JStr ''hi'')]"

definition ai_t1 :: jsval where
  "ai_t1 = JObj [(''type'', JStr ''ai''), (''content'', JStr []),
                 (''tool_calls'', JArr [JObj [(''id'', JStr ''t1''), (''name'', JStr ''search'')]])]"

definition tool_t1 :: jsval where
  "tool_t1 = JObj [(''type'', JStr ''tool''), (''tool_call_id'', JStr ''t1''),
                   (''content'', JStr ''42'')]"

text \<open>
  The tool message the reconciler gives a tool call: the first tool-role message of the
  sequence whose \<open>tool_call_id\<close> is truthy and equals the id of the tool call.
\<close>

definition matching_toolMessage :: "jsval list \<Rightarrow> jsval \<Rightarrow> jsval option" where
  "matching_toolMessage messages tc =
     find (\<lambda>m. isToolMessage m \<and> truthy (own m ''tool_call_id'')
                \<and> strict_eq (own m ''tool_call_id'') (own tc ''id'')) messages"

text \<open>
  The tool message as the specification describes it: the first tool-role message of the
  sequence whose \<open>tool_call_id\<close> equals the id of the tool call.
\<close>

definition claimed_toolMessage :: "jsval list \<Rightarrow> jsval \<Rightarrow> jsval option" where
  "claimed_toolMessage messages tc =
     find (\<lambda>m. isToolMessage m \<and> strict_eq (own m ''tool_call_id'') (own tc ''id'')) messages"

text \<open>
  One state per tool call of the message at position \<open>i\<close>, in the order of the tool
  calls.
\<close>

definition expected_states :: "jsval list \<Rightarrow> nat \<Rightarrow> jsval \<Rightarrow> ToolCallState list" where
  "expected_states messages i message =
     map (\<lambda>tc. \<lparr>toolCall = tc, toolMessage = matching_toolMessage messages tc,
                 aiMessageId = messageId_of message i, timestamp = i * 1000\<rparr>)
         (toolCalls_of message)"

text \<open>The message classifies as AI and its \<open>tool_calls\<close> is a non-empty array.\<close>

definition owns_tool_calls :: "(jsval \<Rightarrow> bool) \<Rightarrow> jsval \<Rightarrow> bool" where
  "owns_tool_calls inst message = (isAIMessage inst message \<and> toolCalls_of message \<noteq> [])"

text \<open>
  The tool calls of the data model are records: no entry of the \<open>tool_calls\<close> of an AI
  message is \<open>null\<close> or \<open>undefined\<close> (reading the \<open>id\<close> of such an entry throws).
\<close>

definition tool_calls_ok :: "(jsval \<Rightarrow> bool) \<Rightarrow> jsval list \<Rightarrow> bool" where
  "tool_calls_ok inst messages =
     list_all (\<lambda>m. isAIMessage inst m \<longrightarrow>
                 list_all (\<lambda>tc. tc \<noteq> JNull \<and> tc \<noteq> JUndefined) (toolCalls_of m)) messages"

text \<open>
  The bindings of the messages \<open>xs\<close> that stand at the positions from \<open>n\<close> on: one
  for every message that owns tool calls, in the order of the positions.
\<close>

definition expected_map :: "(jsval \<Rightarrow> bool) \<Rightarrow> jsval list \<Rightarrow> nat \<Rightarrow> jsval list \<Rightarrow> tool_call_map" where
  "expected_map inst messages n xs =
     map (\<lambda>(i, x). (i, expected_states messages i x))
         (filter (\<lambda>(i, x). owns_tool_calls inst x) (enumerate n xs))"

text \<open>An AI message whose tool call has the empty id, and a tool message for that id.\<close>

definition ai_blank :: jsval where
  "ai_blank = JObj [(''type'', JStr ''ai''), (''tool_calls'', JArr [JObj [(''id'', JStr [])]])]"

definition tool_blank :: jsval where
  "tool_blank = JObj [(''type'', JStr ''tool''), (''tool_call_id'', JStr [])]"

text \<open>No object of the value has an own property named \<open>toString\<close>.\<close>

fun plain :: "jsval \<Rightarrow> bool" where
  "plain (JArr xs) = list_all plain xs"
| "plain (JObj ps) = (map_of ps ''toString'' = None \<and> list_all (\<lambda>p. plain (snd p)) ps)"
| "plain v = True"

text \<open>An object with an own property named \<open>toString\<close>.\<close>

definition named_object :: jsval where
  "named_object = JObj [(''toString'', JStr ''x'')]"

text \<open>An AI message with a text and no tool calls.\<close>

definition ai_hello :: jsval where
  "ai_hello = JObj [(''type'', JStr ''ai''), (''content'', JStr ''hello'')]"

text \<open>
  A sequence of message records: no message is \<open>null\<close> or \<open>undefined\<close>, no object of a
  message has an own property named \<open>toString\<close>, and the tool calls are records.
\<close>

definition renderable :: "(jsval \<Rightarrow> bool) \<Rightarrow> jsval list \<Rightarrow> bool" where
  "renderable inst messages =
     (tool_calls_ok inst messages
      \<and> list_all (\<lambda>m. m \<noteq> JNull \<and> m \<noteq> JUndefined \<and> plain m) messages)"

section \<open>Text extraction\<close>

lemma fragment_text_reads: "fragment_reads x s \<Longrightarrow> fragment_text x = Inr s"
  by (cases x) (auto simp: fragment_reads_def fragment_text_def split: if_splits)

lemma sequence_fragments:
  "list_all2 fragment_reads xs ss \<Longrightarrow> sequence (map fragment_text xs) = Inr ss"
  by (induction xs ss rule: list_all2_induct) (simp_all add: fragment_text_reads)

text \<open>
  C4. \<open>extractTextContent\<close> returns a string unchanged; on a list of fragments it
  returns the concatenation, in list order, of what every fragment contributes (the
  fragment itself when it is a string, else its \<open>text\<close> attribute coerced to string,
  else the empty string); on an object with a \<open>text\<close> attribute it returns that
  attribute coerced to string; on \<open>null\<close> and \<open>undefined\<close> it returns the empty string.
  The four examples of the specification are instances.
\<close>

theorem extractTextContent_spec:
  "extractTextContent (JStr s) = Inr s
   \<and> extractTextContent (JStr ''hello'') = Inr ''hello''
   \<and> (list_all2 fragment_reads xs ss \<longrightarrow> extractTextContent (JArr xs) = Inr (concat ss))
   \<and> extractTextContent (JArr [JObj [(''text'', JStr ''a'')], JStr ''b'', JObj [(''text'', JStr ''c'')]])
       = Inr ''abc''
   \<and> (map_of ps ''text'' = Some t \<longrightarrow> extractTextContent (JObj ps) = String t)
   \<and> extractTextContent (JObj [(''text'', JStr ''x'')]) = Inr ''x''
   \<and> extractTextContent JNull = Inr []
   \<and> extractTextContent JUndefined = Inr []"
  by (simp add: extractTextContent_def sequence_fragments fragment_text_def)

theorem extractTextContent_spec_witness:
  "list_all2 fragment_reads [JObj [(''text'', JNum ''1'')], JStr ''b'', JBool True] [''1'', ''b'', []]
   \<and> extractTextContent (JArr [JObj [(''text'', JNum ''1'')], JStr ''b'', JBool True]) = Inr ''1b''
   \<and> map_of [(''text'', JNull)] ''text'' = Some JNull
   \<and> extractTextContent (JObj [(''text'', JNull)]) = Inr ''null''"
  using extractTextContent_spec [of s "[JObj [(''text'', JNum ''1'')], JStr ''b'', JBool True]"
      "[''1'', ''b'', []]" "[(''text'', JNull)]" JNull]
  by (simp add: fragment_reads_def)

section \<open>Sending\<close>

text \<open>
  C7. \<open>handleSend\<close> makes no call of \<open>stream.submit\<close> when the outgoing text is empty
  after trimming or a submission is in flight; a call is made only when the trimmed text
  is not empty and no submission is in flight. (The handler has no statement that
  throws: the model returns the calls made.)
\<close>

theorem handleSend_rejects:
  "(trim (outgoing_text messageOverride) = [] \<or> isLoading
      \<longrightarrow> handleSend apiKey isLoading messageOverride = [])
   \<and> (handleSend apiKey isLoading messageOverride \<noteq> []
      \<longrightarrow> trim (outgoing_text messageOverride) \<noteq> [] \<and> \<not> isLoading)"
  by (cases messageOverride) (simp_all add: handleSend_def outgoing_text_def)

theorem handleSend_rejects_witness:
  "(trim (outgoing_text (Some '' '')) = [] \<or> False) \<and> handleSend ''key'' False (Some '' '') = []
   \<and> handleSend ''key'' False (Some '' hi '') \<noteq> []
   \<and> trim (outgoing_text (Some '' hi '')) \<noteq> [] \<and> \<not> False"
  using handleSend_rejects [of "Some '' ''" False "''key''"]
    handleSend_rejects [of "Some '' hi ''" False "''key''"]
  by (simp add: handleSend_def trim_def white_space_def outgoing_text_def)

text \<open>
  C8, as stated, fails: the message of the payload is tagged by a field \<open>type\<close>, and has
  no field \<open>role\<close>.
\<close>

theorem handleSend_role_counterexample:
  "handleSend ''key'' False (Some ''hi'') = [human_payload ''hi'']
   \<and> human_payload ''hi'' \<noteq> claimed_payload ''hi''
   \<and> \<not> has (JObj [(''content'', JStr ''hi''), (''type'', JStr ''human'')]) ''role''"
  by (simp add: handleSend_def trim_def white_space_def human_payload_def claimed_payload_def)

text \<open>
  C8, amended. An accepted send (the trimmed text is not empty, no submission is in
  flight, the trimmed API key is not empty) calls \<open>stream.submit\<close> once, with
  \<open>{messages: [{content: <the outgoing text, untrimmed>, type: "human"}]}\<close>; and every
  call \<open>handleSend\<close> makes is this one.
\<close>

theorem handleSend_payload:
  "(trim (outgoing_text messageOverride) \<noteq> [] \<and> \<not> isLoading \<and> trim apiKey \<noteq> []
      \<longrightarrow> handleSend apiKey isLoading messageOverride
            = [human_payload (outgoing_text messageOverride)])
   \<and> (handleSend apiKey isLoading messageOverride \<noteq> []
      \<longrightarrow> handleSend apiKey isLoading messageOverride
            = [human_payload (outgoing_text messageOverride)])"
  by (cases messageOverride) (simp_all add: handleSend_def outgoing_text_def human_payload_def)

theorem handleSend_payload_witness:
  "trim (outgoing_text (Some '' hi '')) \<noteq> [] \<and> \<not> False \<and> trim ''key'' \<noteq> []
   \<and> handleSend ''key'' False (Some '' hi '') = [human_payload '' hi '']
   \<and> handleSend ''key'' False (Some ''ok'') \<noteq> []
   \<and> handleSend ''key'' False (Some ''ok'') = [human_payload ''ok'']"
proof -
  have sent: "handleSend ''key'' False (Some ''ok'') \<noteq> []"
    by (simp add: handleSend_def trim_def white_space_def)
  from handleSend_payload [of "Some ''ok''" False "''key''", THEN conjunct2] sent
  have "handleSend ''key'' False (Some ''ok'') = [human_payload ''ok'']"
    by (simp add: outgoing_text_def)
  with sent handleSend_payload [of "Some '' hi ''" False "''key''", THEN conjunct1]
  show ?thesis
    by (simp add: trim_def white_space_def outgoing_text_def)
qed

section \<open>The agent endpoint\<close>

lemma error_response_reply: "error_response e = json_reply 500 (message_of e)"
  by (cases e) (simp_all add: error_response_def json_reply_def message_of_def)

text \<open>
  C9, as stated, fails: a body whose \<open>apiKey\<close> is present and empty is answered with
  status 400, although the key is not absent and nothing failed; the agent, which would
  have returned, is not called.
\<close>

theorem POST_empty_key_counterexample:
  "has falsy_key_body ''apiKey''
   \<and> POST Inr (Inr falsy_key_body) = Built missing_key_response
   \<and> POST Inr (Inr falsy_key_body) \<noteq> Agent falsy_key_body"
  by (simp add: falsy_key_body_def POST_def get_def)

text \<open>
  C9, amended. If the \<open>apiKey\<close> of the parsed body is falsy (absent, or \<open>null\<close>,
  \<open>false\<close>, \<open>0\<close>, \<open>NaN\<close> or the empty string) the response is status 400 with
  \<open>{error: "Missing API key"}\<close>; if \<open>request.json()\<close> fails, or the body is \<open>null\<close> (so
  that reading its \<open>apiKey\<close> throws), or \<open>basicAgent\<close> throws before it returns, the
  response is status 500 with \<open>{error: message}\<close>, the message being that of the error,
  or \<open>"Internal server error"\<close> for a thrown value that is no \<open>Error\<close>; otherwise what
  \<open>basicAgent\<close> returns is returned.
\<close>

theorem POST_responses:
  "(\<not> truthy (own parsed ''apiKey'') \<and> parsed \<noteq> JNull \<and> parsed \<noteq> JUndefined
      \<longrightarrow> POST basicAgent (Inr parsed) = Built (json_reply 400 ''Missing API key''))
   \<and> (\<not> has parsed ''apiKey'' \<and> parsed \<noteq> JNull \<and> parsed \<noteq> JUndefined
      \<longrightarrow> POST basicAgent (Inr parsed) = Built (json_reply 400 ''Missing API key''))
   \<and> POST basicAgent (Inl e) = Built (json_reply 500 (message_of e))
   \<and> (parsed = JNull \<or> parsed = JUndefined
      \<longrightarrow> POST basicAgent (Inr parsed)
            = Built (json_reply 500 (message_of (cannot_read parsed ''apiKey''))))
   \<and> (truthy (own parsed ''apiKey'') \<and> basicAgent parsed = Inl e
      \<longrightarrow> POST basicAgent (Inr parsed) = Built (json_reply 500 (message_of e)))
   \<and> (truthy (own parsed ''apiKey'') \<and> basicAgent parsed = Inr r
      \<longrightarrow> POST basicAgent (Inr parsed) = Agent r)"
proof -
  have absent: "\<not> has parsed ''apiKey'' \<Longrightarrow> \<not> truthy (own parsed ''apiKey'')"
    by (cases parsed) simp_all
  have nonnull: "truthy (own parsed ''apiKey'') \<Longrightarrow> parsed \<noteq> JNull \<and> parsed \<noteq> JUndefined"
    by (cases parsed) simp_all
  show ?thesis
    using absent nonnull
    by (auto simp: POST_def get_def error_response_reply missing_key_response_def json_reply_def)
qed

theorem POST_responses_witness:
  "\<not> truthy (own (JObj []) ''apiKey'') \<and> \<not> has (JObj []) ''apiKey''
   \<and> POST failing_agent (Inr (JObj [])) = Built (json_reply 400 ''Missing API key'')
   \<and> POST failing_agent (Inr JNull)
       = Built (json_reply 500 ''Cannot read properties of null (reading 'apiKey')'')
   \<and> truthy (own key_body ''apiKey'') \<and> failing_agent key_body = Inl (Error ''overloaded'')
   \<and> POST failing_agent (Inr key_body) = Built (json_reply 500 ''overloaded'')
   \<and> POST Inr (Inr key_body) = Agent key_body"
  using POST_responses [of "JObj []" failing_agent e r]
    POST_responses [of JNull failing_agent e r]
    POST_responses [of key_body failing_agent "Error ''overloaded''" r]
    POST_responses [of key_body Inr e key_body]
  by (simp add: key_body_def message_of_def cannot_read_def)

section \<open>The render sequence\<close>

lemma sorted_fst_filter_enumerate:
  "sorted_wrt (<) (map fst (filter P (enumerate n xs)))"
proof -
  have "sorted_wrt (<) (map fst (enumerate n xs))"
    by (simp add: sorted_wrt_iff_nth_less)
  then show ?thesis
    by (metis sorted_wrt_filter sorted_wrt_map)
qed

lemma map_snd_filter_enumerate:
  "map snd (filter (\<lambda>(pos, message). P message) (enumerate n xs)) = filter P xs"
  by (induction xs arbitrary: n) auto

text \<open>
  C2. The render sequence is the input sequence without its tool-role messages: no
  message of it is a tool-role message, its messages are exactly the messages of the
  input that are not tool-role messages, each at its position, and they stand in the
  order of their positions.
\<close>

theorem render_sequence_drops_tool_messages:
  "map snd (render_sequence messages) = filter (\<lambda>m. \<not> isToolMessage m) messages
   \<and> (\<forall>pm \<in> set (render_sequence messages). \<not> isToolMessage (snd pm))
   \<and> (\<forall>p m. (p, m) \<in> set (render_sequence messages)
        \<longleftrightarrow> p < length messages \<and> messages ! p = m \<and> \<not> isToolMessage m)
   \<and> sorted_wrt (<) (map fst (render_sequence messages))
   \<and> subseq (map snd (render_sequence messages)) messages"
proof (intro conjI)
  show "map snd (render_sequence messages) = filter (\<lambda>m. \<not> isToolMessage m) messages"
    unfolding render_sequence_def by (rule map_snd_filter_enumerate)
  then show "subseq (map snd (render_sequence messages)) messages"
    by simp
  show "\<forall>pm \<in> set (render_sequence messages). \<not> isToolMessage (snd pm)"
    by (auto simp: render_sequence_def)
  show "\<forall>p m. (p, m) \<in> set (render_sequence messages)
      \<longleftrightarrow> p < length messages \<and> messages ! p = m \<and> \<not> isToolMessage m"
    by (auto simp: render_sequence_def in_set_enumerate_eq)
  show "sorted_wrt (<) (map fst (render_sequence messages))"
    unfolding render_sequence_def by (rule sorted_fst_filter_enumerate)
qed

theorem render_sequence_drops_tool_messages_witness:
  "render_sequence [human_hi, tool_t1, ai_t1] = [(0, human_hi), (2, ai_t1)]
   \<and> isToolMessage tool_t1
   \<and> map snd (render_sequence [human_hi, tool_t1, ai_t1]) = [human_hi, ai_t1]
   \<and> subseq [human_hi, ai_t1] [human_hi, tool_t1, ai_t1]"
  using render_sequence_drops_tool_messages [of "[human_hi, tool_t1, ai_t1]"]
  by (simp add: render_sequence_def isToolMessage_def human_hi_def tool_t1_def ai_t1_def)

section \<open>The reconciler\<close>

lemma strict_eq_sym: "strict_eq a b = strict_eq b a"
  by (induction a b rule: strict_eq.induct) auto

lemma get_Inr: "get v k = Inr x \<Longrightarrow> x = own v k"
  by (simp add: get_def split: if_splits)

lemma get_ok: "v \<noteq> JNull \<Longrightarrow> v \<noteq> JUndefined \<Longrightarrow> get v k = Inr (own v k)"
  by (simp add: get_def)

lemma some_id_Inr:
  "some_id tcs v = Inr b \<Longrightarrow> b = (\<exists>tc \<in> set tcs. strict_eq (own tc ''id'') v)"
  by (induction tcs) (auto split: sum.splits if_splits dest: get_Inr)

lemma some_id_ok:
  "list_all (\<lambda>tc. tc \<noteq> JNull \<and> tc \<noteq> JUndefined) tcs \<Longrightarrow> \<exists>b. some_id tcs v = Inr b"
  by (induction tcs) (auto simp: get_ok)

lemma collect_toolMessages_Inr:
  "collect_toolMessages tcs msgs = Inr tms \<Longrightarrow>
   tms = filter (\<lambda>m. isToolMessage m \<and> truthy (own m ''tool_call_id'')
                   \<and> (\<exists>tc \<in> set tcs. strict_eq (own tc ''id'') (own m ''tool_call_id''))) msgs"
proof (induction msgs arbitrary: tms)
  case Nil
  then show ?case by simp
next
  case (Cons msg msgs)
  show ?case
  proof (cases "isToolMessage msg \<and> truthy (own msg ''tool_call_id'')")
    case False
    with Cons show ?thesis by (auto simp: Let_def split: if_splits)
  next
    case True
    with Cons.prems obtain b rest where
      b: "some_id tcs (own msg ''tool_call_id'') = Inr b" and
      rest: "collect_toolMessages tcs msgs = Inr rest" and
      tms: "tms = (if b then msg # rest else rest)"
      by (auto simp: Let_def split: sum.splits)
    from some_id_Inr [OF b] Cons.IH [OF rest] tms True show ?thesis
      by auto
  qed
qed

lemma collect_toolMessages_ok:
  "list_all (\<lambda>tc. tc \<noteq> JNull \<and> tc \<noteq> JUndefined) tcs \<Longrightarrow> \<exists>tms. collect_toolMessages tcs msgs = Inr tms"
proof (induction msgs)
  case Nil
  then show ?case by simp
next
  case (Cons msg msgs)
  then obtain rest where rest: "collect_toolMessages tcs msgs = Inr rest" by auto
  from some_id_ok [OF Cons.prems] obtain b where
    "some_id tcs (own msg ''tool_call_id'') = Inr b" by blast
  with rest show ?case by (simp add: Let_def)
qed

lemma find_toolMessage_Inr:
  "find_toolMessage tc tms = Inr r \<Longrightarrow>
   r = find (\<lambda>tm. strict_eq (own tm ''tool_call_id'') (own tc ''id'')) tms"
  by (induction tms) (auto split: sum.splits if_splits dest: get_Inr)

lemma find_toolMessage_ok:
  "tc \<noteq> JNull \<Longrightarrow> tc \<noteq> JUndefined \<Longrightarrow> \<exists>r. find_toolMessage tc tms = Inr r"
  by (induction tms) (auto simp: get_ok)

lemma toolCallStates_Inr:
  "toolCallStates mid idx tms tcs = Inr sts \<Longrightarrow>
   sts = map (\<lambda>tc. \<lparr>toolCall = tc,
                     toolMessage = find (\<lambda>tm. strict_eq (own tm ''tool_call_id'') (own tc ''id'')) tms,
                     aiMessageId = mid, timestamp = idx * 1000\<rparr>) tcs"
  by (induction tcs arbitrary: sts) (auto split: sum.splits dest: find_toolMessage_Inr)

lemma toolCallStates_ok:
  "list_all (\<lambda>tc. tc \<noteq> JNull \<and> tc \<noteq> JUndefined) tcs \<Longrightarrow> \<exists>sts. toolCallStates mid idx tms tcs = Inr sts"
proof (induction tcs)
  case Nil
  then show ?case by simp
next
  case (Cons tc tcs)
  then obtain sts where "toolCallStates mid idx tms tcs = Inr sts" by auto
  moreover from Cons.prems find_toolMessage_ok [of tc tms] obtain r where
    "find_toolMessage tc tms = Inr r" by auto
  ultimately show ?case by simp
qed

lemma find_filter: "find P (filter Q xs) = find (\<lambda>x. Q x \<and> P x) xs"
  by (induction xs) auto

lemma find_among_collected:
  assumes "tc \<in> set tcs"
  shows "find (\<lambda>tm. strict_eq (own tm ''tool_call_id'') (own tc ''id''))
           (filter (\<lambda>m. isToolMessage m \<and> truthy (own m ''tool_call_id'')
                        \<and> (\<exists>tc \<in> set tcs. strict_eq (own tc ''id'') (own m ''tool_call_id''))) msgs)
         = matching_toolMessage msgs tc"
proof -
  have "\<And>m. (isToolMessage m \<and> truthy (own m ''tool_call_id'')
            \<and> (\<exists>tc \<in> set tcs. strict_eq (own tc ''id'') (own m ''tool_call_id'')))
          \<and> strict_eq (own m ''tool_call_id'') (own tc ''id'')
        \<longleftrightarrow> isToolMessage m \<and> truthy (own m ''tool_call_id'')
            \<and> strict_eq (own m ''tool_call_id'') (own tc ''id'')"
    using assms strict_eq_sym by blast
  then show ?thesis
    by (simp add: find_filter matching_toolMessage_def)
qed

lemma reconcile_message_Inr:
  assumes "reconcile_message inst msgs m (i, message) = Inr m'"
  shows "m' = (if owns_tool_calls inst message
               then AList.update i (expected_states msgs i message) m else m)"
proof (cases "owns_tool_calls inst message")
  case False
  with assms show ?thesis
    by (auto simp: reconcile_message_def owns_tool_calls_def Let_def split: sum.splits if_splits)
next
  case True
  with assms obtain tms sts where
    tms: "collect_toolMessages (toolCalls_of message) msgs = Inr tms" and
    sts: "toolCallStates (messageId_of message i) i tms (toolCalls_of message) = Inr sts" and
    m': "m' = AList.update i sts m"
    by (auto simp: reconcile_message_def owns_tool_calls_def Let_def split: sum.splits if_splits)
  have "sts = expected_states msgs i message"
    unfolding toolCallStates_Inr [OF sts] collect_toolMessages_Inr [OF tms] expected_states_def
    by (rule map_cong [OF refl]) (simp add: find_among_collected)
  with m' True show ?thesis by simp
qed

lemma reconcile_message_ok:
  assumes "isAIMessage inst message \<longrightarrow>
           list_all (\<lambda>tc. tc \<noteq> JNull \<and> tc \<noteq> JUndefined) (toolCalls_of message)"
  shows "\<exists>m'. reconcile_message inst msgs m (i, message) = Inr m'"
proof (cases "isAIMessage inst message")
  case False
  then show ?thesis by (simp add: reconcile_message_def)
next
  case True
  with assms have ok: "list_all (\<lambda>tc. tc \<noteq> JNull \<and> tc \<noteq> JUndefined) (toolCalls_of message)"
    by simp
  from collect_toolMessages_ok [OF ok] obtain tms where
    tms: "collect_toolMessages (toolCalls_of message) msgs = Inr tms" by blast
  from toolCallStates_ok [OF ok] obtain sts where
    "toolCallStates (messageId_of message i) i tms (toolCalls_of message) = Inr sts" by blast
  with tms True show ?thesis
    by (simp add: reconcile_message_def Let_def)
qed

lemma update_fresh: "k \<notin> fst ` set al \<Longrightarrow> AList.update k v al = al @ [(k, v)]"
  by (induction al) auto

lemma expected_map_Cons:
  "expected_map inst msgs n (x # xs) =
     (if owns_tool_calls inst x then [(n, expected_states msgs n x)] else [])
     @ expected_map inst msgs (Suc n) xs"
  by (simp add: expected_map_def)

lemma forEach_reconcile_Inr:
  assumes "forEach (reconcile_message inst msgs) (enumerate n xs) acc = Inr m"
    and "fst ` set acc \<subseteq> {..< n}"
  shows "m = acc @ expected_map inst msgs n xs"
  using assms
proof (induction xs arbitrary: n acc)
  case Nil
  then show ?case by (simp add: expected_map_def)
next
  case (Cons x xs)
  from Cons.prems(1) obtain acc' where
    step: "reconcile_message inst msgs acc (n, x) = Inr acc'" and
    rest: "forEach (reconcile_message inst msgs) (enumerate (Suc n) xs) acc' = Inr m"
    by (auto split: sum.splits)
  have fresh: "n \<notin> fst ` set acc" using Cons.prems(2) by auto
  have acc': "acc' = acc @ (if owns_tool_calls inst x then [(n, expected_states msgs n x)] else [])"
    using reconcile_message_Inr [OF step] fresh by (simp add: update_fresh)
  then have "fst ` set acc' \<subseteq> {..< Suc n}"
    using Cons.prems(2) by (auto simp: less_Suc_eq)
  from Cons.IH [OF rest this] acc' show ?case
    by (simp add: expected_map_Cons)
qed

lemma forEach_ok:
  "(\<And>x s. x \<in> set xs \<Longrightarrow> \<exists>s'. f s x = Inr s') \<Longrightarrow> \<exists>s'. forEach f xs s = Inr s'"
proof (induction xs arbitrary: s)
  case Nil
  then show ?case by simp
next
  case (Cons x xs)
  then obtain s' where "f s x = Inr s'" by (meson list.set_intros(1))
  moreover from Cons obtain s'' where "forEach f xs s' = Inr s''" by (meson list.set_intros(2))
  ultimately show ?case by simp
qed

lemma sort_key_same:
  "(\<And>x. x \<in> set xs \<Longrightarrow> f x = c) \<Longrightarrow> sort_key f xs = xs"
proof (induction xs)
  case Nil
  then show ?case by simp
next
  case (Cons x xs)
  then have "sort_key f xs = xs" by simp
  moreover have "insort_key f x xs = x # xs"
    using Cons.prems by (cases xs) simp_all
  ultimately show ?case by simp
qed

lemma sort_expected_states: "sort_key timestamp (expected_states msgs i x) = expected_states msgs i x"
  by (rule sort_key_same [where c = "i * 1000"]) (auto simp: expected_states_def)

lemma sort_expected_map:
  "map (\<lambda>(k, calls). (k, sort_key timestamp calls)) (expected_map inst msgs n xs)
   = expected_map inst msgs n xs"
  by (simp add: expected_map_def sort_expected_states case_prod_unfold comp_def)

lemma toolCallsByMessage_Inr:
  assumes "toolCallsByMessage inst msgs = Inr tcm"
  shows "tcm = expected_map inst msgs 0 msgs"
proof -
  from assms obtain m where
    m: "forEach (reconcile_message inst msgs) (enumerate 0 msgs) [] = Inr m" and
    tcm: "tcm = map (\<lambda>(k, calls). (k, sort_key timestamp calls)) m"
    by (auto simp: toolCallsByMessage_def split: sum.splits)
  from forEach_reconcile_Inr [OF m] have "m = expected_map inst msgs 0 msgs" by simp
  with tcm show ?thesis by (simp add: sort_expected_map)
qed

lemma toolCallsByMessage_ok:
  assumes "tool_calls_ok inst msgs"
  shows "\<exists>tcm. toolCallsByMessage inst msgs = Inr tcm"
proof -
  have "\<exists>s'. reconcile_message inst msgs s im = Inr s'" if "im \<in> set (enumerate 0 msgs)" for im s
  proof -
    obtain i x where im: "im = (i, x)" by (cases im)
    with that have "x \<in> set msgs" by (auto simp: in_set_enumerate_eq)
    with assms have "isAIMessage inst x \<longrightarrow>
        list_all (\<lambda>tc. tc \<noteq> JNull \<and> tc \<noteq> JUndefined) (toolCalls_of x)"
      by (simp add: tool_calls_ok_def list_all_iff)
    from reconcile_message_ok [OF this] im show ?thesis by simp
  qed
  from forEach_ok [of "enumerate 0 msgs" "reconcile_message inst msgs", OF this]
  obtain m where "forEach (reconcile_message inst msgs) (enumerate 0 msgs) [] = Inr m"
    by blast
  then show ?thesis by (simp add: toolCallsByMessage_def)
qed

lemma map_of_expected_map:
  "map_of (expected_map inst msgs n xs) i =
     (if n \<le> i \<and> i < n + length xs \<and> owns_tool_calls inst (xs ! (i - n))
      then Some (expected_states msgs i (xs ! (i - n))) else None)"
proof (induction xs arbitrary: n)
  case Nil
  then show ?case by (simp add: expected_map_def)
next
  case (Cons x xs)
  show ?case
    by (simp add: expected_map_Cons Cons.IH nth_Cons' map_add_def)
qed

text \<open>
  C1, as stated, fails: the tool call with the empty id stays pending although a tool-role
  message of the sequence has a \<open>tool_call_id\<close> equal to that id. The reconciler
  collects a tool message only when its \<open>tool_call_id\<close> is truthy.
\<close>

theorem toolCallsByMessage_blank_id_counterexample:
  "toolCallsByMessage no_instances [ai_blank, tool_blank]
     = Inr [(0, [\<lparr>toolCall = JObj [(''id'', JStr [])], toolMessage = None,
                  aiMessageId = JStr ''msg-0'', timestamp = 0\<rparr>])]
   \<and> claimed_toolMessage [ai_blank, tool_blank] (JObj [(''id'', JStr [])]) = Some tool_blank"
  by (simp add: toolCallsByMessage_def reconcile_message_def isAIMessage_def isToolMessage_def
      ai_blank_def tool_blank_def claimed_toolMessage_def messageId_of_def toolCalls_of_def
      get_def show_nat.simps no_instances_def)

lemma strict_eq_truthy: "strict_eq a b \<Longrightarrow> truthy a = truthy b"
  by (induction a b rule: strict_eq.induct) auto

text \<open>For a tool call whose id is truthy the two descriptions agree.\<close>

lemma matching_is_claimed:
  "truthy (own tc ''id'') \<Longrightarrow> matching_toolMessage messages tc = claimed_toolMessage messages tc"
  unfolding matching_toolMessage_def claimed_toolMessage_def
  by (rule arg_cong [where f = "\<lambda>P. find P messages"]) (auto dest: strict_eq_truthy)

lemma toolCalls_of_array:
  "toolCalls_of m \<noteq> [] \<longleftrightarrow> (\<exists>tcs. own m ''tool_calls'' = JArr tcs \<and> tcs \<noteq> [])"
  by (cases "own m ''tool_calls''") (simp_all add: toolCalls_of_def)

text \<open>
  C1, amended. For every message sequence whose tool calls are records, and every message
  at index \<open>i\<close> that classifies as AI and carries a non-empty tool-call list, the
  reconciler returns a map that holds for the message exactly one state per tool call, in
  the order of the list: its \<open>toolMessage\<close> is the first tool-role message of the
  whole sequence whose \<open>tool_call_id\<close> is truthy and equals the id of the tool call
  (none when there is no such message), and its \<open>timestamp\<close> is \<open>i * 1000\<close>.
\<close>

theorem toolCallsByMessage_states:
  assumes "tool_calls_ok inst messages"
    and "i < length messages"
    and "isAIMessage inst (messages ! i)"
    and "own (messages ! i) ''tool_calls'' = JArr tcs"
    and "tcs \<noteq> []"
  shows "\<exists>tcm. toolCallsByMessage inst messages = Inr tcm
           \<and> map_of tcm i =
               Some (map (\<lambda>tc. \<lparr>toolCall = tc, toolMessage = matching_toolMessage messages tc,
                                 aiMessageId = messageId_of (messages ! i) i,
                                 timestamp = i * 1000\<rparr>) tcs)"
proof -
  from toolCallsByMessage_ok [OF assms(1)] obtain tcm where
    tcm: "toolCallsByMessage inst messages = Inr tcm" by blast
  have tcs: "toolCalls_of (messages ! i) = tcs"
    using assms(4) by (simp add: toolCalls_of_def)
  with assms have "owns_tool_calls inst (messages ! i)"
    by (simp add: owns_tool_calls_def)
  with assms(2) have "map_of tcm i = Some (expected_states messages i (messages ! i))"
    unfolding toolCallsByMessage_Inr [OF tcm] by (simp add: map_of_expected_map)
  with tcm tcs show ?thesis
    by (simp add: expected_states_def)
qed

theorem toolCallsByMessage_states_witness:
  "tool_calls_ok no_instances [human_hi, ai_t1, tool_t1]
   \<and> isAIMessage no_instances ai_t1
   \<and> own ai_t1 ''tool_calls'' = JArr [JObj [(''id'', JStr ''t1''), (''name'', JStr ''search'')]]
   \<and> (\<exists>tcm. toolCallsByMessage no_instances [human_hi, ai_t1, tool_t1] = Inr tcm
         \<and> map_of tcm 1 =
             Some [\<lparr>toolCall = JObj [(''id'', JStr ''t1''), (''name'', JStr ''search'')],
                    toolMessage = Some tool_t1, aiMessageId = JStr ''msg-1'',
                    timestamp = 1000\<rparr>])"
proof -
  have ok: "tool_calls_ok no_instances [human_hi, ai_t1, tool_t1]"
    by (simp add: tool_calls_ok_def toolCalls_of_def human_hi_def ai_t1_def tool_t1_def)
  have ai: "isAIMessage no_instances ([human_hi, ai_t1, tool_t1] ! 1)"
    by (simp add: isAIMessage_def ai_t1_def)
  have tcs: "own ([human_hi, ai_t1, tool_t1] ! 1) ''tool_calls''
      = JArr [JObj [(''id'', JStr ''t1''), (''name'', JStr ''search'')]]"
    by (simp add: ai_t1_def)
  have found: "matching_toolMessage [human_hi, ai_t1, tool_t1]
      (JObj [(''id'', JStr ''t1''), (''name'', JStr ''search'')]) = Some tool_t1"
    by (simp add: matching_toolMessage_def isToolMessage_def human_hi_def ai_t1_def tool_t1_def)
  have mid: "messageId_of ai_t1 1 = JStr ''msg-1''"
    by (simp add: messageId_of_def ai_t1_def show_nat.simps)
  from toolCallsByMessage_states [OF ok _ ai tcs] ok ai tcs found mid show ?thesis
    by simp
qed

lemma find_append_Some: "find P xs = Some x \<Longrightarrow> find P (xs @ ys) = Some x"
  by (induction xs) (auto split: if_splits)

lemma matching_toolMessage_append:
  "matching_toolMessage S tc = Some tm \<Longrightarrow> matching_toolMessage (S @ E) tc = Some tm"
  by (simp add: matching_toolMessage_def find_append_Some)

text \<open>
  C3. When reconciling \<open>S\<close> matches the tool call \<open>k\<close> of the message at index \<open>i\<close>
  to a tool message, reconciling \<open>S\<close> with further messages appended gives the same
  tool call the same tool message.
\<close>

theorem matches_survive_appending:
  assumes "tool_calls_ok inst (S @ E)"
    and "toolCallsByMessage inst S = Inr tcm"
    and "map_of tcm i = Some sts"
    and "k < length sts"
    and "toolMessage (sts ! k) = Some tm"
  shows "\<exists>tcm' sts'. toolCallsByMessage inst (S @ E) = Inr tcm'
           \<and> map_of tcm' i = Some sts' \<and> length sts' = length sts
           \<and> toolCall (sts' ! k) = toolCall (sts ! k)
           \<and> toolMessage (sts' ! k) = Some tm"
proof -
  from assms(2,3) have i: "i < length S" and owns: "owns_tool_calls inst (S ! i)"
    and sts: "sts = expected_states S i (S ! i)"
    unfolding toolCallsByMessage_Inr [OF assms(2)]
    by (auto simp: map_of_expected_map split: if_splits)
  from toolCallsByMessage_ok [OF assms(1)] obtain tcm' where
    tcm': "toolCallsByMessage inst (S @ E) = Inr tcm'" by blast
  from i owns have "map_of tcm' i = Some (expected_states (S @ E) i (S ! i))"
    unfolding toolCallsByMessage_Inr [OF tcm'] by (simp add: map_of_expected_map nth_append)
  moreover have "length (expected_states (S @ E) i (S ! i)) = length sts"
    by (simp add: sts expected_states_def)
  moreover from assms(4) have k: "k < length (toolCalls_of (S ! i))"
    by (simp add: sts expected_states_def)
  then have "toolCall (expected_states (S @ E) i (S ! i) ! k) = toolCall (sts ! k)"
    by (simp add: sts expected_states_def)
  moreover from assms(5) k have "matching_toolMessage S (toolCalls_of (S ! i) ! k) = Some tm"
    by (simp add: sts expected_states_def)
  with k have "toolMessage (expected_states (S @ E) i (S ! i) ! k) = Some tm"
    by (simp add: expected_states_def matching_toolMessage_append)
  ultimately show ?thesis using tcm' by blast
qed

theorem matches_survive_appending_witness:
  "tool_calls_ok no_instances ([human_hi, ai_t1, tool_t1] @ [human_hi, tool_t1])
   \<and> toolCallsByMessage no_instances [human_hi, ai_t1, tool_t1]
       = Inr [(1, [\<lparr>toolCall = JObj [(''id'', JStr ''t1''), (''name'', JStr ''search'')],
                    toolMessage = Some tool_t1, aiMessageId = JStr ''msg-1'',
                    timestamp = 1000\<rparr>])]
   \<and> (\<exists>tcm' sts'. toolCallsByMessage no_instances ([human_hi, ai_t1, tool_t1] @ [human_hi, tool_t1])
          = Inr tcm'
        \<and> map_of tcm' 1 = Some sts' \<and> length sts' = 1
        \<and> toolCall (sts' ! 0) = JObj [(''id'', JStr ''t1''), (''name'', JStr ''search'')]
        \<and> toolMessage (sts' ! 0) = Some tool_t1)"
proof -
  have ok: "tool_calls_ok no_instances ([human_hi, ai_t1, tool_t1] @ [human_hi, tool_t1])"
    by (simp add: tool_calls_ok_def toolCalls_of_def human_hi_def ai_t1_def tool_t1_def)
  have tcm: "toolCallsByMessage no_instances [human_hi, ai_t1, tool_t1]
       = Inr [(1, [\<lparr>toolCall = JObj [(''id'', JStr ''t1''), (''name'', JStr ''search'')],
                    toolMessage = Some tool_t1, aiMessageId = JStr ''msg-1'',
                    timestamp = 1000\<rparr>])]"
    by (simp add: toolCallsByMessage_def reconcile_message_def isAIMessage_def isToolMessage_def
        human_hi_def ai_t1_def tool_t1_def messageId_of_def toolCalls_of_def
        get_def show_nat.simps no_instances_def)
  from matches_survive_appending [OF ok tcm, of 1 _ 0 tool_t1] ok tcm show ?thesis
    by simp
qed

section \<open>Totality of the classifier\<close>

text \<open>
  The three role predicates have no statement that throws on a datum (the model gives
  them the type \<open>bool\<close>), provided \<open>AIMessage.isInstance\<close> does not throw.

  C5, as stated, fails for \<open>extractTextContent\<close>: \<open>String\<close> throws a TypeError on an
  object that has an own property \<open>toString\<close>, whether the object is the content, the
  \<open>text\<close> of the content, or the \<open>text\<close> of a fragment.
\<close>

theorem extractTextContent_throws_counterexample:
  "extractTextContent named_object = Inl cannot_convert
   \<and> extractTextContent (JObj [(''text'', named_object)]) = Inl cannot_convert
   \<and> extractTextContent (JArr [JObj [(''text'', named_object)]]) = Inl cannot_convert"
  by (simp add: extractTextContent_def fragment_text_def named_object_def)

lemma sequence_ok:
  "(\<And>x. x \<in> set xs \<Longrightarrow> \<exists>v. x = Inr v) \<Longrightarrow> \<exists>vs. sequence xs = Inr vs"
proof (induction xs)
  case Nil
  then show ?case by simp
next
  case (Cons x xs)
  then obtain v vs where "x = Inr v" "sequence xs = Inr vs"
    by (meson list.set_intros)
  then show ?case by simp
qed

lemma String_plain: "plain v \<Longrightarrow> \<exists>s. String v = Inr s"
proof (induction v rule: String.induct)
  case (6 xs)
  have "\<exists>vs. sequence (map (\<lambda>x. if x = JNull \<or> x = JUndefined then Inr [] else String x) xs) = Inr vs"
  proof (rule sequence_ok)
    fix y assume "y \<in> set (map (\<lambda>x. if x = JNull \<or> x = JUndefined then Inr [] else String x) xs)"
    then obtain x where x: "x \<in> set xs"
      and y: "y = (if x = JNull \<or> x = JUndefined then Inr [] else String x)" by auto
    show "\<exists>v. y = Inr v"
    proof (cases "x = JNull \<or> x = JUndefined")
      case True
      with y show ?thesis by simp
    next
      case False
      moreover from x "6.prems" have "plain x" by (simp add: list_all_iff)
      ultimately show ?thesis using "6.IH" [of x] x y by simp
    qed
  qed
  then show ?case by auto
qed simp_all

lemma plain_own: "plain v \<Longrightarrow> plain (own v k)"
proof (cases v)
  case (JObj ps)
  assume "plain v"
  with JObj show ?thesis
    by (auto simp: list_all_iff split: option.splits dest!: map_of_SomeD)
qed simp_all

lemma fragment_text_plain: "plain x \<Longrightarrow> \<exists>s. fragment_text x = Inr s"
  using String_plain [OF plain_own, of x "''text''"]
  by (cases x) (simp_all add: fragment_text_def)

lemma extractTextContent_plain: "plain c \<Longrightarrow> \<exists>s. extractTextContent c = Inr s"
proof (cases c)
  case (JArr items)
  assume "plain c"
  with JArr have "\<And>x. x \<in> set items \<Longrightarrow> plain x" by (simp add: list_all_iff)
  then have "\<exists>vs. sequence (map fragment_text items) = Inr vs"
    by (intro sequence_ok) (auto dest: fragment_text_plain)
  with JArr show ?thesis by (auto simp: extractTextContent_def)
next
  case (JObj ps)
  assume "plain c"
  with JObj String_plain [of c] String_plain [OF plain_own, of c "''text''"] show ?thesis
    by (auto simp: extractTextContent_def)
qed (simp_all add: extractTextContent_def)

text \<open>
  C5, amended. \<open>extractTextContent\<close> returns a string, and does not throw, on every
  input in which no object has an own property named \<open>toString\<close>. The role predicates
  return false on \<open>null\<close>, \<open>undefined\<close> and every primitive; and a value that the
  host library does not count as an \<open>AIMessage\<close> instance and whose \<open>type\<close> is none of
  \<open>"ai"\<close>, \<open>"tool"\<close>, \<open>"human"\<close> classifies as none of the three roles.
\<close>

theorem classifier_total:
  "(plain content \<longrightarrow> (\<exists>s. extractTextContent content = Inr s))
   \<and> (message = JNull \<or> typeof message \<noteq> ''object''
        \<longrightarrow> \<not> isAIMessage inst message \<and> \<not> isToolMessage message \<and> \<not> isHumanMessage message)
   \<and> (\<not> inst message \<and> own message ''type'' \<noteq> JStr ''ai'' \<and> own message ''type'' \<noteq> JStr ''tool''
        \<and> own message ''type'' \<noteq> JStr ''human''
        \<longrightarrow> \<not> isAIMessage inst message \<and> \<not> isToolMessage message \<and> \<not> isHumanMessage message)"
proof -
  have eq: "strict_eq v (JStr s) \<longleftrightarrow> v = JStr s" for v s
    by (cases v) auto
  show ?thesis
    by (auto simp: extractTextContent_plain isAIMessage_def isToolMessage_def isHumanMessage_def eq)
qed

theorem classifier_total_witness:
  "plain (JArr [JObj [(''text'', JNum ''7'')], JNull, JObj [(''kind'', JStr ''image'')]])
   \<and> (\<exists>s. extractTextContent (JArr [JObj [(''text'', JNum ''7'')], JNull,
              JObj [(''kind'', JStr ''image'')]]) = Inr s)
   \<and> typeof (JNum ''7'') \<noteq> ''object''
   \<and> \<not> isAIMessage no_instances (JNum ''7'') \<and> \<not> isToolMessage (JNum ''7'')
   \<and> \<not> isHumanMessage (JNum ''7'')
   \<and> \<not> no_instances (JObj [(''type'', JStr ''system'')])
   \<and> \<not> isAIMessage no_instances (JObj [(''type'', JStr ''system'')])
   \<and> \<not> isToolMessage (JObj [(''type'', JStr ''system'')])
   \<and> \<not> isHumanMessage (JObj [(''type'', JStr ''system'')])"
  using classifier_total [of "JArr [JObj [(''text'', JNum ''7'')], JNull, JObj [(''kind'', JStr ''image'')]]"
      "JNum ''7''" no_instances]
    classifier_total [of JNull "JObj [(''type'', JStr ''system'')]" no_instances]
  by (simp add: no_instances_def)

section \<open>The render pass\<close>

lemma sequence_Inr:
  "sequence xs = Inr ys \<Longrightarrow> length ys = length xs \<and> (\<forall>k < length xs. xs ! k = Inr (ys ! k))"
proof (induction xs arbitrary: ys)
  case Nil
  then show ?case by simp
next
  case (Cons x xs)
  then obtain v vs where "x = Inr v" "sequence xs = Inr vs" "ys = v # vs"
    by (auto split: sum.splits)
  with Cons.IH [of vs] show ?case
    by (auto simp: nth_Cons')
qed

lemma keyed_bubbles:
  "sequence (map (\<lambda>st. case get (toolCall st) ''id'' of Inl e \<Rightarrow> Inl e | Inr k \<Rightarrow> Inr (k, st)) calls)
     = Inr bubbles \<Longrightarrow> map snd bubbles = calls"
  by (induction calls arbitrary: bubbles) (auto split: sum.splits)

lemma render_message_Inr:
  assumes "render_message inst tcm isLoading err n k (p, m) = Inr it"
  shows "error_bubble it = (if truthy err \<and> isAIMessage inst m \<and> int k = int n - 1
                            then Some err else None)"
    and "map snd (tool_bubbles it) =
           (if isAIMessage inst m then (case map_of tcm p of None \<Rightarrow> [] | Some calls \<Rightarrow> calls)
            else [])"
  using assms
  by (auto simp: render_message_def Let_def split: sum.splits dest: keyed_bubbles)

lemma ChatInterface_Timeline:
  assumes "ChatInterface inst msgs isLoading error = Inr (Timeline items dots)"
  shows "\<exists>tcm. toolCallsByMessage inst msgs = Inr tcm
           \<and> length items = length (render_sequence msgs)
           \<and> (\<forall>k < length items.
                 render_message inst tcm isLoading (errorMessage error)
                   (length (render_sequence msgs)) k (render_sequence msgs ! k) = Inr (items ! k))"
proof -
  let ?rs = "render_sequence msgs"
  from assms obtain tcm where tcm: "toolCallsByMessage inst msgs = Inr tcm"
    and seq: "sequence (map (\<lambda>(messageIndex, pm).
                 render_message inst tcm isLoading (errorMessage error) (length ?rs) messageIndex pm)
               (enumerate 0 ?rs)) = Inr items"
    by (auto simp: ChatInterface_def Let_def split: sum.splits if_splits)
  from sequence_Inr [OF seq] have "length items = length ?rs"
    and "\<forall>k < length ?rs. render_message inst tcm isLoading (errorMessage error) (length ?rs) k (?rs ! k)
           = Inr (items ! k)"
    by (auto simp: nth_enumerate_eq)
  with tcm show ?thesis by auto
qed

lemma keyed_bubbles_ok:
  "list_all (\<lambda>st. toolCall st \<noteq> JNull \<and> toolCall st \<noteq> JUndefined) calls \<Longrightarrow>
   \<exists>bubbles. sequence (map (\<lambda>st. case get (toolCall st) ''id'' of Inl e \<Rightarrow> Inl e
                                    | Inr k \<Rightarrow> Inr (k, st)) calls) = Inr bubbles"
  by (induction calls) (auto simp: get_ok)

lemma render_message_ok:
  assumes "m \<noteq> JNull" "m \<noteq> JUndefined" "plain m"
    and "isAIMessage inst m \<Longrightarrow>
         list_all (\<lambda>st. toolCall st \<noteq> JNull \<and> toolCall st \<noteq> JUndefined)
           (case map_of tcm p of None \<Rightarrow> [] | Some calls \<Rightarrow> calls)"
  shows "\<exists>it. render_message inst tcm isLoading err n k (p, m) = Inr it"
proof -
  from extractTextContent_plain [OF plain_own [OF assms(3)], of "''content''"] obtain t where
    t: "extractTextContent (own m ''content'') = Inr t" by blast
  let ?calls = "if isAIMessage inst m then (case map_of tcm p of None \<Rightarrow> [] | Some calls \<Rightarrow> calls)
                else []"
  have "list_all (\<lambda>st. toolCall st \<noteq> JNull \<and> toolCall st \<noteq> JUndefined) ?calls"
    using assms(4) by simp
  from keyed_bubbles_ok [OF this] obtain bubbles where
    "sequence (map (\<lambda>st. case get (toolCall st) ''id'' of Inl e \<Rightarrow> Inl e
                         | Inr k \<Rightarrow> Inr (k, st)) ?calls) = Inr bubbles" by blast
  with t assms(1,2) show ?thesis
    by (simp add: render_message_def get_ok Let_def)
qed

lemma expected_states_ok:
  assumes "list_all (\<lambda>tc. tc \<noteq> JNull \<and> tc \<noteq> JUndefined) (toolCalls_of m)"
  shows "list_all (\<lambda>st. toolCall st \<noteq> JNull \<and> toolCall st \<noteq> JUndefined) (expected_states msgs i m)"
  using assms by (simp add: expected_states_def list_all_iff)

lemma ChatInterface_ok:
  assumes "renderable inst msgs" and "msgs \<noteq> []"
  shows "\<exists>items. ChatInterface inst msgs isLoading error = Inr (Timeline items isLoading)"
proof -
  let ?rs = "render_sequence msgs"
  from assms(1) have ok: "tool_calls_ok inst msgs"
    and wf: "\<And>m. m \<in> set msgs \<Longrightarrow> m \<noteq> JNull \<and> m \<noteq> JUndefined \<and> plain m"
    by (simp_all add: renderable_def list_all_iff)
  from toolCallsByMessage_ok [OF ok] obtain tcm where
    tcm: "toolCallsByMessage inst msgs = Inr tcm" by blast
  have "\<exists>v. x = Inr v"
    if "x \<in> set (map (\<lambda>(messageIndex, pm).
                 render_message inst tcm isLoading (errorMessage error) (length ?rs) messageIndex pm)
               (enumerate 0 ?rs))" for x
  proof -
    from that obtain k p m where km: "(k, (p, m)) \<in> set (enumerate 0 ?rs)"
      and x: "x = render_message inst tcm isLoading (errorMessage error) (length ?rs) k (p, m)"
      by auto
    from km have "k < length ?rs" and "?rs ! k = (p, m)"
      by (simp_all add: in_set_enumerate_eq)
    then have "(p, m) \<in> set ?rs"
      using nth_mem [of k ?rs] by simp
    then have p: "p < length msgs" and m: "m = msgs ! p"
      by (auto simp: render_sequence_def in_set_enumerate_eq)
    then have mem: "m \<in> set msgs" by simp
    have calls: "list_all (\<lambda>st. toolCall st \<noteq> JNull \<and> toolCall st \<noteq> JUndefined)
           (case map_of tcm p of None \<Rightarrow> [] | Some calls \<Rightarrow> calls)" if "isAIMessage inst m"
    proof -
      from ok mem that have "list_all (\<lambda>tc. tc \<noteq> JNull \<and> tc \<noteq> JUndefined) (toolCalls_of m)"
        by (simp add: tool_calls_ok_def list_all_iff)
      from expected_states_ok [OF this] p m show ?thesis
        unfolding toolCallsByMessage_Inr [OF tcm] by (simp add: map_of_expected_map)
    qed
    from render_message_ok [of m inst tcm p] wf [OF mem] calls x show ?thesis
      by blast
  qed
  from sequence_ok [OF this] obtain items where
    "sequence (map (\<lambda>(messageIndex, pm).
                 render_message inst tcm isLoading (errorMessage error) (length ?rs) messageIndex pm)
               (enumerate 0 ?rs)) = Inr items" by blast
  with tcm assms(2) show ?thesis
    by (simp add: ChatInterface_def Let_def)
qed

text \<open>
  C6, as stated, fails: with an error whose message is empty no error bubble is attached,
  although the error is present and the last item of the render sequence is an AI
  message. The bubble is guarded by the truth of \<open>errorMessage\<close>.
\<close>

theorem error_bubble_empty_message_counterexample:
  "ChatInterface no_instances [ai_hello] False (Error [])
     = Inr (Timeline [\<lparr>key = JNum ''0'',
                       message_bubble = Some \<lparr>from_human = False, shown_text = ''hello'',
                                               with_cursor = False\<rparr>,
                       tool_bubbles = [], error_bubble = None\<rparr>] False)
   \<and> isAIMessage no_instances ai_hello
   \<and> render_sequence [ai_hello] = [(0, ai_hello)]"
  by (simp add: ChatInterface_def toolCallsByMessage_def reconcile_message_def render_message_def
      render_sequence_def isAIMessage_def isToolMessage_def isHumanMessage_def ai_hello_def
      toolCalls_of_def messageId_of_def get_def show_nat.simps extractTextContent_def
      no_instances_def)

text \<open>
  C6, amended. A sequence of message records that is not empty is rendered; and in every
  render pass the error bubble is attached to an item exactly when the error has a
  message that is not empty (the message of an \<open>Error\<close>, or the error itself when it is
  a string), the item is the last of the render sequence, and its message classifies as
  AI. When the last item of the render sequence is not an AI message, no item has an
  error bubble.
\<close>

theorem error_bubble_placement:
  "(renderable inst messages \<and> messages \<noteq> []
      \<longrightarrow> (\<exists>items. ChatInterface inst messages isLoading error = Inr (Timeline items isLoading)))
   \<and> (ChatInterface inst messages isLoading error = Inr (Timeline items dots)
      \<longrightarrow> length items = length (render_sequence messages)
        \<and> (\<forall>k < length items.
             error_bubble (items ! k) =
               (if truthy (errorMessage error)
                   \<and> isAIMessage inst (snd (render_sequence messages ! k))
                   \<and> Suc k = length (render_sequence messages)
                then Some (errorMessage error) else None))
        \<and> (\<not> isAIMessage inst (snd (last (render_sequence messages)))
             \<longrightarrow> (\<forall>k < length items. error_bubble (items ! k) = None)))"
proof (intro conjI impI)
  assume "renderable inst messages \<and> messages \<noteq> []"
  then show "\<exists>items. ChatInterface inst messages isLoading error = Inr (Timeline items isLoading)"
    using ChatInterface_ok by blast
next
  let ?rs = "render_sequence messages"
  assume ci: "ChatInterface inst messages isLoading error = Inr (Timeline items dots)"
  from ChatInterface_Timeline [OF ci] obtain tcm where
    len: "length items = length ?rs" and
    it: "\<And>k. k < length items \<Longrightarrow>
           render_message inst tcm isLoading (errorMessage error) (length ?rs) k (?rs ! k)
             = Inr (items ! k)"
    by blast
  have bubble: "error_bubble (items ! k) =
            (if truthy (errorMessage error) \<and> isAIMessage inst (snd (?rs ! k)) \<and> Suc k = length ?rs
             then Some (errorMessage error) else None)" if "k < length items" for k
  proof -
    obtain p m where pm: "?rs ! k = (p, m)" by (cases "?rs ! k")
    from it [OF that] have "render_message inst tcm isLoading (errorMessage error) (length ?rs) k (p, m)
             = Inr (items ! k)" by (simp add: pm)
    from render_message_Inr(1) [OF this] that len show ?thesis
      by (auto simp: pm)
  qed
  show "length items = length ?rs" by (rule len)
  show "\<forall>k < length items. error_bubble (items ! k) =
            (if truthy (errorMessage error) \<and> isAIMessage inst (snd (?rs ! k)) \<and> Suc k = length ?rs
             then Some (errorMessage error) else None)"
    using bubble by blast
  assume notai: "\<not> isAIMessage inst (snd (last ?rs))"
  show "\<forall>k < length items. error_bubble (items ! k) = None"
  proof (intro allI impI)
    fix k assume k: "k < length items"
    show "error_bubble (items ! k) = None"
    proof (cases "Suc k = length ?rs")
      case True
      then have "last ?rs = ?rs ! k"
        by (metis diff_Suc_1 last_conv_nth length_0_conv nat.distinct(1))
      with notai bubble [OF k] show ?thesis by simp
    next
      case False
      with bubble [OF k] show ?thesis by simp
    qed
  qed
qed

theorem error_bubble_placement_witness:
  "renderable no_instances [human_hi, ai_hello] \<and> [human_hi, ai_hello] \<noteq> []
   \<and> (\<exists>items. ChatInterface no_instances [human_hi, ai_hello] False (Error ''boom'')
         = Inr (Timeline items False)
       \<and> length items = 2
       \<and> error_bubble (items ! 0) = None
       \<and> error_bubble (items ! 1) = Some (JStr ''boom''))
   \<and> renderable no_instances [ai_hello, human_hi]
   \<and> \<not> isAIMessage no_instances (snd (last (render_sequence [ai_hello, human_hi])))
   \<and> (\<exists>items. ChatInterface no_instances [ai_hello, human_hi] False (Error ''boom'')
         = Inr (Timeline items False)
       \<and> length items = 2
       \<and> error_bubble (items ! 0) = None
       \<and> error_bubble (items ! 1) = None)"
proof -
  have r: "renderable no_instances [human_hi, ai_hello] \<and> [human_hi, ai_hello] \<noteq> []"
    by (simp add: renderable_def tool_calls_ok_def toolCalls_of_def human_hi_def ai_hello_def)
  have rs: "render_sequence [human_hi, ai_hello] = [(0, human_hi), (1, ai_hello)]"
    by (simp add: render_sequence_def isToolMessage_def human_hi_def ai_hello_def)
  have ai: "\<not> isAIMessage no_instances human_hi" "isAIMessage no_instances ai_hello"
    by (simp_all add: isAIMessage_def human_hi_def ai_hello_def no_instances_def)
  note placement = error_bubble_placement [of no_instances "[human_hi, ai_hello]" False "Error ''boom''"]
  from placement [THEN conjunct1] r obtain items where
    ci: "ChatInterface no_instances [human_hi, ai_hello] False (Error ''boom'')
         = Inr (Timeline items False)" by blast
  from placement [of items False, THEN conjunct2] ci rs ai
  have "length items = 2 \<and> error_bubble (items ! 0) = None
       \<and> error_bubble (items ! 1) = Some (JStr ''boom'')"
    by (simp add: nth_Cons')
  with ci have first: "\<exists>items. ChatInterface no_instances [human_hi, ai_hello] False (Error ''boom'')
         = Inr (Timeline items False)
       \<and> length items = 2
       \<and> error_bubble (items ! 0) = None
       \<and> error_bubble (items ! 1) = Some (JStr ''boom'')" by blast
  have r': "renderable no_instances [ai_hello, human_hi] \<and> [ai_hello, human_hi] \<noteq> []"
    by (simp add: renderable_def tool_calls_ok_def toolCalls_of_def human_hi_def ai_hello_def)
  have rs': "render_sequence [ai_hello, human_hi] = [(0, ai_hello), (1, human_hi)]"
    by (simp add: render_sequence_def isToolMessage_def human_hi_def ai_hello_def)
  note placement' = error_bubble_placement [of no_instances "[ai_hello, human_hi]" False "Error ''boom''"]
  from placement' [THEN conjunct1] r' obtain items' where
    ci': "ChatInterface no_instances [ai_hello, human_hi] False (Error ''boom'')
         = Inr (Timeline items' False)" by blast
  from placement' [of items' False, THEN conjunct2] ci' rs' ai
  have "length items' = 2 \<and> error_bubble (items' ! 0) = None \<and> error_bubble (items' ! 1) = None"
    by simp
  with ci' have second: "\<exists>items. ChatInterface no_instances [ai_hello, human_hi] False (Error ''boom'')
         = Inr (Timeline items False)
       \<and> length items = 2
       \<and> error_bubble (items ! 0) = None
       \<and> error_bubble (items ! 1) = None" by blast
  from r r' rs' ai first second show ?thesis by simp
qed

text \<open>
  C10. A sequence whose tool calls are records has a derived map; and a derived map has
  an entry for the message at position \<open>i\<close> if and only if the message classifies as AI
  and its \<open>tool_calls\<close> is a non-empty array. So a message that does not classify as AI
  has no entry: a human-role or tool-role message (that the host library does not count
  as an \<open>AIMessage\<close> instance), an unrecognised message; nor has an AI message without
  tool calls. The render pass shows the states the map holds for a message that
  classifies as AI, and none for any other message.
\<close>

theorem tool_call_map_owners:
  "(tool_calls_ok inst messages \<longrightarrow> (\<exists>tcm. toolCallsByMessage inst messages = Inr tcm))
   \<and> (toolCallsByMessage inst messages = Inr tcm
      \<longrightarrow> ((\<exists>sts. map_of tcm i = Some sts)
             \<longleftrightarrow> i < length messages \<and> isAIMessage inst (messages ! i)
                 \<and> (\<exists>tcs. own (messages ! i) ''tool_calls'' = JArr tcs \<and> tcs \<noteq> []))
        \<and> (i < length messages \<and> \<not> isAIMessage inst (messages ! i) \<longrightarrow> map_of tcm i = None)
        \<and> (i < length messages \<and> \<not> inst (messages ! i)
             \<and> (isHumanMessage (messages ! i) \<or> isToolMessage (messages ! i))
             \<longrightarrow> map_of tcm i = None)
        \<and> (render_message inst tcm isLoading err n k (p, m) = Inr it
             \<longrightarrow> map snd (tool_bubbles it) =
                   (if isAIMessage inst m
                    then (case map_of tcm p of None \<Rightarrow> [] | Some calls \<Rightarrow> calls) else [])))"
proof (intro conjI impI)
  assume "tool_calls_ok inst messages"
  then show "\<exists>tcm. toolCallsByMessage inst messages = Inr tcm"
    by (rule toolCallsByMessage_ok)
next
  assume tcm: "toolCallsByMessage inst messages = Inr tcm"
  have entry: "map_of tcm i =
      (if i < length messages \<and> owns_tool_calls inst (messages ! i)
       then Some (expected_states messages i (messages ! i)) else None)"
    unfolding toolCallsByMessage_Inr [OF tcm] by (simp add: map_of_expected_map)
  show "(\<exists>sts. map_of tcm i = Some sts)
        \<longleftrightarrow> i < length messages \<and> isAIMessage inst (messages ! i)
            \<and> (\<exists>tcs. own (messages ! i) ''tool_calls'' = JArr tcs \<and> tcs \<noteq> [])"
    by (simp add: entry owns_tool_calls_def toolCalls_of_array)
  {
    assume "i < length messages \<and> \<not> isAIMessage inst (messages ! i)"
    then show "map_of tcm i = None"
      by (simp add: entry owns_tool_calls_def)
  }
  {
    assume h: "i < length messages \<and> \<not> inst (messages ! i)
             \<and> (isHumanMessage (messages ! i) \<or> isToolMessage (messages ! i))"
    have "\<not> isAIMessage inst (messages ! i)"
    proof (cases "messages ! i")
      case (JObj ps)
      with h show ?thesis
        by (cases "own (JObj ps) ''type''")
          (auto simp: isAIMessage_def isHumanMessage_def isToolMessage_def)
    qed (use h in \<open>auto simp: isAIMessage_def isHumanMessage_def isToolMessage_def\<close>)
    then show "map_of tcm i = None"
      by (simp add: entry owns_tool_calls_def)
  }
  {
    assume "render_message inst tcm isLoading err n k (p, m) = Inr it"
    then show "map snd (tool_bubbles it) =
                   (if isAIMessage inst m
                    then (case map_of tcm p of None \<Rightarrow> [] | Some calls \<Rightarrow> calls) else [])"
      by (rule render_message_Inr(2))
  }
qed

theorem tool_call_map_owners_witness:
  "tool_calls_ok no_instances [human_hi, ai_t1, tool_t1]
   \<and> isHumanMessage human_hi \<and> isAIMessage no_instances ai_t1 \<and> isToolMessage tool_t1
   \<and> (\<exists>tcm. toolCallsByMessage no_instances [human_hi, ai_t1, tool_t1] = Inr tcm
         \<and> map_of tcm 0 = None \<and> (\<exists>sts. map_of tcm 1 = Some sts) \<and> map_of tcm 2 = None
         \<and> (\<exists>it. render_message no_instances tcm False JUndefined 2 0 (0, human_hi) = Inr it
                \<and> tool_bubbles it = [])
         \<and> (\<exists>it. render_message no_instances tcm False JUndefined 2 1 (1, ai_t1) = Inr it
                \<and> map snd (tool_bubbles it) = the (map_of tcm 1)))"
proof -
  let ?S = "[human_hi, ai_t1, tool_t1]"
  let ?st = "\<lparr>toolCall = JObj [(''id'', JStr ''t1''), (''name'', JStr ''search'')],
              toolMessage = Some tool_t1, aiMessageId = JStr ''msg-1'', timestamp = 1000\<rparr>"
  have ok: "tool_calls_ok no_instances ?S"
    by (simp add: tool_calls_ok_def toolCalls_of_def human_hi_def ai_t1_def tool_t1_def)
  have roles: "isHumanMessage human_hi" "isAIMessage no_instances ai_t1" "isToolMessage tool_t1"
    "\<not> isAIMessage no_instances human_hi"
    by (simp_all add: isHumanMessage_def isAIMessage_def isToolMessage_def
        human_hi_def ai_t1_def tool_t1_def no_instances_def)
  have calls: "own ai_t1 ''tool_calls'' = JArr [JObj [(''id'', JStr ''t1''), (''name'', JStr ''search'')]]"
    by (simp add: ai_t1_def)
  from tool_call_map_owners [where inst = no_instances and messages = ?S, THEN conjunct1] ok
  obtain tcm where tcm: "toolCallsByMessage no_instances ?S = Inr tcm" by blast
  note owners = tool_call_map_owners [where inst = no_instances and messages = ?S and tcm = tcm]
  from owners [where i = 0, THEN conjunct2, THEN mp, OF tcm] roles
  have e0: "map_of tcm 0 = None" by (simp add: no_instances_def)
  from owners [where i = 1, THEN conjunct2, THEN mp, OF tcm] roles calls
  have e1: "\<exists>sts. map_of tcm 1 = Some sts" by simp
  from owners [where i = 2, THEN conjunct2, THEN mp, OF tcm] roles
  have e2: "map_of tcm 2 = None" by (simp add: no_instances_def)
  have "\<exists>it. render_message no_instances tcm False JUndefined 2 0 (0, human_hi) = Inr it"
    by (rule render_message_ok) (simp_all add: e0, simp_all add: human_hi_def)
  then obtain it0 where it0: "render_message no_instances tcm False JUndefined 2 0 (0, human_hi) = Inr it0"
    by blast
  from owners [where p = 0 and m = human_hi and it = it0, THEN conjunct2, THEN mp, OF tcm] it0 roles
  have b0: "tool_bubbles it0 = []" by simp
  from tcm have "tcm = expected_map no_instances ?S 0 ?S" by (rule toolCallsByMessage_Inr)
  then have sts: "map_of tcm 1 = Some (expected_states ?S 1 ai_t1)"
    using roles calls by (simp add: map_of_expected_map owns_tool_calls_def toolCalls_of_def)
  have "\<exists>it. render_message no_instances tcm False JUndefined 2 1 (1, ai_t1) = Inr it"
  proof (rule render_message_ok)
    show "ai_t1 \<noteq> JNull" "ai_t1 \<noteq> JUndefined" "plain ai_t1"
      by (simp_all add: ai_t1_def)
    show "list_all (\<lambda>st. toolCall st \<noteq> JNull \<and> toolCall st \<noteq> JUndefined)
            (case map_of tcm 1 of None \<Rightarrow> [] | Some calls \<Rightarrow> calls)"
      using sts by (simp add: expected_states_def toolCalls_of_def calls)
  qed
  then obtain it1 where it1: "render_message no_instances tcm False JUndefined 2 1 (1, ai_t1) = Inr it1"
    by blast
  from owners [where p = 1 and m = ai_t1 and it = it1, THEN conjunct2, THEN mp, OF tcm] it1 roles sts
  have b1: "map snd (tool_bubbles it1) = the (map_of tcm 1)" by simp
  from ok roles tcm e0 e1 e2 it0 b0 it1 b1 show ?thesis by blast
qed

end
